theory Spec2Isabelle
  imports Main "HOL-Library.AList" "HOL-Library.Char_ord" "HOL-Library.List_Lexorder"
begin

section \<open>The record store underneath a Netnode\<close>

text \<open>
  \<^verbatim>\<open>netnode.py\<close> keeps every entry in an IDA netnode, reached through \<^verbatim>\<open>self._n\<close>.
  The netnode itself is not part of the repository; it is modelled here from the contract of
  section 6 of the specification (the Record Store): spaces of direct slots addressed by an
  integer or by a string, each under a one-character tag, blobs addressed by (integer, tag),
  enumeration by "first key" and "next key after X", and a "next free integer slot".

  Byte strings (Python 2 \<^verbatim>\<open>str\<close>) are \<^typ>\<open>string\<close>. A space is an association list; what the
  substrate reports as "no value" (Python's \<^verbatim>\<open>None\<close>) is \<^const>\<open>None\<close>.
\<close>

type_synonym bytes = string

type_synonym ('k, 'v) space = "('k \<times> 'v) list"

text \<open>Modelled from the spec: a direct slot addressed by an integer in a tagged space;
  reading an unset slot gives the absence sentinel.\<close>

definition supval :: "(int, bytes) space \<Rightarrow> int \<Rightarrow> bytes option" where
  [simp]: "supval sp idx = map_of sp idx"

definition supset :: "(int, bytes) space \<Rightarrow> int \<Rightarrow> bytes \<Rightarrow> (int, bytes) space" where
  [simp]: "supset sp idx v = AList.update idx v sp"

definition supdel :: "(int, bytes) space \<Rightarrow> int \<Rightarrow> (int, bytes) space" where
  [simp]: "supdel sp idx = AList.delete idx sp"

text \<open>Modelled from the spec: the blob extension, addressed by (integer key, tag). As the
  comment in \<^verbatim>\<open>_strset\<close> says, a blob store is a specialised supval table: a blob space
  and the integer-keyed space of the same tag are one space, which is how the code enumerates
  blobs with \<^verbatim>\<open>sup1st\<close>/\<^verbatim>\<open>supnxt\<close> and allocates with \<^verbatim>\<open>suplast\<close>. A blob has no size
  limit.\<close>

definition getblob :: "(int, bytes) space \<Rightarrow> int \<Rightarrow> bytes option" where
  [simp]: "getblob sp start = map_of sp start"

definition setblob :: "(int, bytes) space \<Rightarrow> bytes \<Rightarrow> int \<Rightarrow> (int, bytes) space" where
  [simp]: "setblob sp buf start = AList.update start buf sp"

definition delblob :: "(int, bytes) space \<Rightarrow> int \<Rightarrow> (int, bytes) space" where
  [simp]: "delblob sp start = AList.delete start sp"

text \<open>Modelled from the spec: a direct slot addressed by a string in a tagged space. The
  value type is a parameter: byte strings in the default space, integers in the forwarding
  space.\<close>

definition hashval :: "(string, 'v) space \<Rightarrow> string \<Rightarrow> 'v option" where
  [simp]: "hashval sp idx = map_of sp idx"

definition hashset :: "(string, 'v) space \<Rightarrow> string \<Rightarrow> 'v \<Rightarrow> (string, 'v) space" where
  [simp]: "hashset sp idx v = AList.update idx v sp"

definition hashdel :: "(string, 'v) space \<Rightarrow> string \<Rightarrow> (string, 'v) space" where
  [simp]: "hashdel sp idx = AList.delete idx sp"

text \<open>Modelled from the spec: the enumeration primitives of a space, "first key" and
  "next key after X", in ascending key order, with a not-found sentinel at the end. For an
  integer-keyed space the sentinel is the integer \<^verbatim>\<open>idaapi.BADNODE\<close>, the node index with all
  bits set (written here for a 64-bit database; no proof below looks at its value); for a
  string-keyed space it is \<^verbatim>\<open>None\<close>.\<close>

definition BADNODE :: int where
  "BADNODE = 2 ^ 64 - 1"

fun first_key :: "('k::linorder, 'v) space \<Rightarrow> 'k option" where
  "first_key [] = None"
| "first_key ((k, v) # sp) = (case first_key sp of None \<Rightarrow> Some k | Some m \<Rightarrow> Some (min k m))"

definition next_key :: "('k::linorder, 'v) space \<Rightarrow> 'k \<Rightarrow> 'k option" where
  "next_key sp i = first_key (filter (\<lambda>(k, v). i < k) sp)"

definition sup1st :: "(int, bytes) space \<Rightarrow> int" where
  "sup1st sp = (case first_key sp of None \<Rightarrow> BADNODE | Some k \<Rightarrow> k)"

definition supnxt :: "(int, bytes) space \<Rightarrow> int \<Rightarrow> int" where
  "supnxt sp idx = (case next_key sp idx of None \<Rightarrow> BADNODE | Some k \<Rightarrow> k)"

definition hash1st :: "(string, 'v) space \<Rightarrow> string option" where
  [simp]: "hash1st sp = first_key sp"

definition hashnxt :: "(string, 'v) space \<Rightarrow> string \<Rightarrow> string option" where
  [simp]: "hashnxt sp idx = next_key sp idx"

text \<open>Modelled from the spec: the "next free integer slot" primitive of a tagged blob space,
  which is what the code takes \<^verbatim>\<open>suplast\<close> to be: the least non-negative index above every
  index in use.\<close>

definition suplast :: "(int, bytes) space \<Rightarrow> int" where
  "suplast sp = fold (\<lambda>(k, v) m. max m (k + 1)) sp 0"

section \<open>The Netnode object\<close>

text \<open>
  The object holds its name and the handle \<^verbatim>\<open>self._n\<close>. The handle is represented by the
  content of the spaces the class addresses, one field for each pair of a kind of space and a
  tag:
  \<^item> \<open>sup_default\<close>: integer-keyed, default tag (small values of integer keys);
  \<^item> \<open>sup_INT_KEYS\<close>: integer-keyed, \<^verbatim>\<open>INT_KEYS_TAG = 'M'\<close> (blobs of integer keys);
  \<^item> \<open>sup_STR_KEYS\<close>: integer-keyed, \<^verbatim>\<open>STR_KEYS_TAG = 'N'\<close> (blobs of string keys);
  \<^item> \<open>hash_default\<close>: string-keyed, default tag (small values of string keys);
  \<^item> \<open>hash_STR_KEYS\<close>: string-keyed, \<^verbatim>\<open>STR_KEYS_TAG = 'N'\<close>;
  \<^item> \<open>hash_STR_TO_INT_MAP\<close>: string-keyed, \<^verbatim>\<open>STR_TO_INT_MAP_TAG = 'O'\<close> (forwarding
    records, string key to generated integer).
\<close>

record Netnode =
  netnode_name :: string
  sup_default :: "(int, bytes) space"
  sup_INT_KEYS :: "(int, bytes) space"
  sup_STR_KEYS :: "(int, bytes) space"
  hash_default :: "(string, bytes) space"
  hash_STR_KEYS :: "(string, bytes) space"
  hash_STR_TO_INT_MAP :: "(string, int) space"

definition BLOB_SIZE :: nat where
  "BLOB_SIZE = 1024"

definition OUR_NETNODE :: string where
  "OUR_NETNODE = ''$ com.williballenthin''"

text \<open>The exceptions of the class and of its collaborators: \<^verbatim>\<open>KeyError\<close>,
  \<^verbatim>\<open>NetnodeCorruptError\<close>, \<^verbatim>\<open>TypeError\<close>, \<^verbatim>\<open>AssertionError\<close>, and the codec's
  \<^verbatim>\<open>ValueError\<close> (\<^verbatim>\<open>json.loads\<close>) and \<^verbatim>\<open>zlib.error\<close>.\<close>

datatype error = KeyError | NetnodeCorruptError | TypeError | AssertionError
  | ValueError | ZlibError

text \<open>A key is what Python hands to \<^verbatim>\<open>__getitem__\<close>: a string, an integer, or anything
  else.\<close>

datatype key = IntKey int | StrKey string | OtherKey

text \<open>
  The codec (\<^verbatim>\<open>json\<close> and \<^verbatim>\<open>zlib\<close>) is a parameter. A Python value is \<^typ>\<open>'a option\<close>,
  \<^const>\<open>None\<close> being Python's \<^verbatim>\<open>None\<close>. \<^verbatim>\<open>json.dumps\<close> raises on a value it cannot
  encode, \<^verbatim>\<open>json.loads\<close> and \<^verbatim>\<open>zlib.decompress\<close> raise on malformed input.
\<close>

record 'a codec =
  encode :: "'a option \<Rightarrow> error + bytes"
  decode :: "bytes \<Rightarrow> error + 'a option"
  compress :: "bytes \<Rightarrow> bytes"
  decompress :: "bytes \<Rightarrow> error + bytes"

text \<open>Modelled from the spec: \<^verbatim>\<open>idaapi.netnode(name, 0, True)\<close> on a name that does not
  exist creates an empty namespace.\<close>

definition init :: "string \<Rightarrow> Netnode" where
  "init name = \<lparr>netnode_name = name, sup_default = [], sup_INT_KEYS = [], sup_STR_KEYS = [],
     hash_default = [], hash_STR_KEYS = [], hash_STR_TO_INT_MAP = []\<rparr>"

subsection \<open>Integer keys\<close>

definition intdel :: "Netnode \<Rightarrow> int \<Rightarrow> error + Netnode" where
  "intdel self key =
     (let (self1, did_del1) =
            (if getblob (sup_INT_KEYS self) key \<noteq> None
             then (self\<lparr>sup_INT_KEYS := delblob (sup_INT_KEYS self) key\<rparr>, True)
             else (self, False));
          (self2, did_del2) =
            (if supval (sup_default self1) key \<noteq> None
             then (self1\<lparr>sup_default := supdel (sup_default self1) key\<rparr>, True)
             else (self1, did_del1))
      in if \<not> did_del2 then Inl KeyError else Inr self2)"

definition intset :: "Netnode \<Rightarrow> int \<Rightarrow> bytes \<Rightarrow> error + Netnode" where
  "intset self key v =
     (case (case intdel self key of Inl KeyError \<Rightarrow> Inr self | r \<Rightarrow> r) of
        Inl e \<Rightarrow> Inl e
      | Inr self1 \<Rightarrow>
          if length v > BLOB_SIZE
          then Inr (self1\<lparr>sup_INT_KEYS := setblob (sup_INT_KEYS self1) v key\<rparr>)
          else Inr (self1\<lparr>sup_default := supset (sup_default self1) key v\<rparr>))"

definition intget :: "Netnode \<Rightarrow> int \<Rightarrow> error + bytes" where
  "intget self key =
     (case getblob (sup_INT_KEYS self) key of
        Some v \<Rightarrow> Inr v
      | None \<Rightarrow>
          (case supval (sup_default self) key of
             Some v \<Rightarrow> Inr v
           | None \<Rightarrow> Inl KeyError))"

subsection \<open>String keys\<close>

text \<open>Python's truth value of what \<^verbatim>\<open>hashval\<close> returns: \<^verbatim>\<open>None\<close> and the empty string
  are false.\<close>

definition truthy :: "bytes option \<Rightarrow> bool" where
  "truthy v = (case v of None \<Rightarrow> False | Some b \<Rightarrow> b \<noteq> [])"

definition strdel :: "Netnode \<Rightarrow> string \<Rightarrow> error + Netnode" where
  "strdel self key =
     (let (self1, did_del1) =
            (case hashval (hash_STR_TO_INT_MAP self) key of
               Some intkey \<Rightarrow>
                 (self\<lparr>sup_STR_KEYS := delblob (sup_STR_KEYS self) intkey,
                        hash_default := hashdel (hash_default self) key\<rparr>, True)
             | None \<Rightarrow> (self, False));
          (self2, did_del2) =
            (if truthy (hashval (hash_default self1) key)
             then (self1\<lparr>hash_default := hashdel (hash_default self1) key\<rparr>, True)
             else (self1, did_del1))
      in if \<not> did_del2 then Inl KeyError else Inr self2)"

definition get_next_str_slot :: "Netnode \<Rightarrow> int" where
  "get_next_str_slot self = suplast (sup_STR_KEYS self)"

definition strset :: "Netnode \<Rightarrow> string \<Rightarrow> bytes \<Rightarrow> error + Netnode" where
  "strset self key v =
     (case (case strdel self key of Inl KeyError \<Rightarrow> Inr self | r \<Rightarrow> r) of
        Inl e \<Rightarrow> Inl e
      | Inr self1 \<Rightarrow>
          if length v > BLOB_SIZE
          then (let intkey = suplast (sup_STR_KEYS self1)
                in Inr (self1\<lparr>sup_STR_KEYS := setblob (sup_STR_KEYS self1) v intkey,
                               hash_STR_TO_INT_MAP :=
                                 hashset (hash_STR_TO_INT_MAP self1) key intkey\<rparr>))
          else Inr (self1\<lparr>hash_default := hashset (hash_default self1) key v\<rparr>))"

definition strget :: "Netnode \<Rightarrow> string \<Rightarrow> error + bytes" where
  "strget self key =
     (case hashval (hash_STR_TO_INT_MAP self) key of
        Some intkey \<Rightarrow>
          (case getblob (sup_STR_KEYS self) intkey of
             None \<Rightarrow> Inl NetnodeCorruptError
           | Some v \<Rightarrow> Inr v)
      | None \<Rightarrow>
          (case hashval (hash_default self) key of
             Some v \<Rightarrow> Inr v
           | None \<Rightarrow> Inl KeyError))"

subsection \<open>The mapping interface\<close>

definition getitem :: "'a codec \<Rightarrow> Netnode \<Rightarrow> key \<Rightarrow> error + 'a option" where
  "getitem c self key =
     (case (case key of
              StrKey s \<Rightarrow> strget self s
            | IntKey i \<Rightarrow> intget self i
            | OtherKey \<Rightarrow> Inl TypeError) of
        Inl e \<Rightarrow> Inl e
      | Inr v \<Rightarrow> (case decompress c v of Inl e \<Rightarrow> Inl e | Inr d \<Rightarrow> decode c d))"

definition setitem :: "'a codec \<Rightarrow> Netnode \<Rightarrow> key \<Rightarrow> 'a option \<Rightarrow> error + Netnode" where
  "setitem c self key val =
     (if val = None then Inl AssertionError
      else case encode c val of
        Inl e \<Rightarrow> Inl e
      | Inr d \<Rightarrow>
          (let v = compress c d
           in case key of
                StrKey s \<Rightarrow> strset self s v
              | IntKey i \<Rightarrow> intset self i v
              | OtherKey \<Rightarrow> Inl TypeError))"

definition delitem :: "Netnode \<Rightarrow> key \<Rightarrow> error + Netnode" where
  "delitem self key =
     (case key of
        StrKey s \<Rightarrow> strdel self s
      | IntKey i \<Rightarrow> intdel self i
      | OtherKey \<Rightarrow> Inl TypeError)"

text \<open>\<^verbatim>\<open>Netnode.get(key, default=None)\<close>.\<close>

definition get :: "'a codec \<Rightarrow> Netnode \<Rightarrow> key \<Rightarrow> 'a option \<Rightarrow> error + 'a option" where
  "get c self key dflt =
     (case getitem c self key of Inl KeyError \<Rightarrow> Inr dflt | r \<Rightarrow> r)"

text \<open>\<^verbatim>\<open>Netnode.__contains__\<close>.\<close>

definition contains :: "'a codec \<Rightarrow> Netnode \<Rightarrow> key \<Rightarrow> error + bool" where
  "contains c self key =
     (case getitem c self key of
        Inr v \<Rightarrow> if v \<noteq> None then Inr True else Inr False
      | Inl KeyError \<Rightarrow> Inr False
      | Inl e \<Rightarrow> Inl e)"

subsection \<open>Enumeration\<close>

text \<open>The two loops of \<^verbatim>\<open>iterkeys\<close> over integer-keyed spaces are
  \<^verbatim>\<open>while i != idaapi.BADNODE: yield i; i = supnxt(i)\<close>;
  \<open>tour_sup sp i\<close> is what such a loop yields when entered with \<open>i\<close>. A key equal to
  \<^verbatim>\<open>BADNODE\<close> ends the loop like the sentinel does.\<close>

function tour_sup :: "(int, bytes) space \<Rightarrow> int \<Rightarrow> int list" where
  "tour_sup sp i = (if i = BADNODE then [] else i # tour_sup sp (supnxt sp i))"
  by pat_completeness auto

text \<open>The two loops over string-keyed spaces are
  \<^verbatim>\<open>while i != idaapi.BADNODE and i is not None: yield i; i = hashnxt(i)\<close>.
  A string is never equal to the integer \<^verbatim>\<open>BADNODE\<close>, so the loop ends at \<^verbatim>\<open>None\<close>;
  \<open>tour sp i\<close> is what it yields when entered with \<open>i\<close>.\<close>

function tour :: "('k::linorder, 'v) space \<Rightarrow> 'k option \<Rightarrow> 'k list" where
  "tour sp None = []"
| "tour sp (Some i) = i # tour sp (next_key sp i)"
  by pat_completeness auto

text \<open>\<^verbatim>\<open>Netnode.iterkeys\<close>, realised as the list of what it yields, and
  \<^verbatim>\<open>Netnode.keys\<close>.\<close>

definition iterkeys :: "Netnode \<Rightarrow> key list" where
  "iterkeys self =
     map IntKey (tour_sup (sup_default self) (sup1st (sup_default self)))
     @ map IntKey (tour_sup (sup_INT_KEYS self) (sup1st (sup_INT_KEYS self)))
     @ map StrKey (tour (hash_default self) (hash1st (hash_default self)))
     @ map StrKey (tour (hash_STR_KEYS self) (hash1st (hash_STR_KEYS self)))"

definition keys :: "Netnode \<Rightarrow> key list" where
  "keys self = iterkeys self"

text \<open>\<^verbatim>\<open>Netnode.kill\<close>. Modelled from the spec: the substrate's \<^verbatim>\<open>kill\<close> discards the
  content of the namespace, so that the \<^verbatim>\<open>idaapi.netnode\<close> call that follows creates an
  empty one under the same name.\<close>

definition kill :: "Netnode \<Rightarrow> Netnode" where
  "kill self = init (netnode_name self)"

subsection \<open>Client programs\<close>

text \<open>
  A client of the class makes a sequence of calls \<^verbatim>\<open>n[key] = value\<close>, \<^verbatim>\<open>del n[key]\<close> and
  \<^verbatim>\<open>n.kill()\<close>. A call that raises leaves the store as it found it: \<^verbatim>\<open>__setitem__\<close>
  raises from its assertion, from the codec or from the type test, all before \<^verbatim>\<open>_intset\<close> or
  \<^verbatim>\<open>_strset\<close> is entered, and \<^verbatim>\<open>_intdel\<close> and \<^verbatim>\<open>_strdel\<close> raise only while
  \<^verbatim>\<open>did_del\<close> is still false, that is when neither of their two writes has run.
  \<open>run c self calls\<close> is the store after the calls, made one after the other on \<open>self\<close>.
\<close>

datatype 'a call = Call_setitem key "'a option" | Call_delitem key | Call_kill

fun perform :: "'a codec \<Rightarrow> Netnode \<Rightarrow> 'a call \<Rightarrow> Netnode" where
  "perform c self (Call_setitem k v) =
     (case setitem c self k v of Inr self' \<Rightarrow> self' | Inl e \<Rightarrow> self)"
| "perform c self (Call_delitem k) =
     (case delitem self k of Inr self' \<Rightarrow> self' | Inl e \<Rightarrow> self)"
| "perform c self Call_kill = kill self"

definition run :: "'a codec \<Rightarrow> Netnode \<Rightarrow> 'a call list \<Rightarrow> Netnode" where
  "run c self calls = foldl (perform c) self calls"

subsection \<open>A concrete codec\<close>

text \<open>The theorems below hold for every codec. They are instantiated on a small codec for
  string values, which stands in for \<^verbatim>\<open>json\<close> and \<^verbatim>\<open>zlib\<close>: a string is encoded as itself
  behind a one-character marker, \<^verbatim>\<open>None\<close> as \<^verbatim>\<open>null\<close>, and the compressor stores its input
  as it is, so that the compressed size is the encoded size. It is not
  \<^verbatim>\<open>zlib\<close>: a value is large for it as soon as it is long, however repetitive.\<close>

definition raw_codec :: "string codec" where
  "raw_codec =
     \<lparr>encode = (\<lambda>v. case v of None \<Rightarrow> Inr ''null'' | Some s \<Rightarrow> Inr (CHR ''s'' # s)),
      decode = (\<lambda>b. case b of
                  [] \<Rightarrow> Inl ValueError
                | c # s \<Rightarrow> if c = CHR ''s'' then Inr (Some s)
                           else if b = ''null'' then Inr None else Inl ValueError),
      compress = (\<lambda>b. b),
      decompress = (\<lambda>b. Inr b)\<rparr>"

text \<open>Two values for \<^const>\<open>raw_codec\<close>: the payload of the first has 2 bytes, the payload of
  the second has 2001 bytes.\<close>

definition small_value :: string where
  "small_value = ''a''"

definition large_value :: string where
  "large_value = replicate 2000 (CHR ''x'')"

subsection \<open>Stores used as concrete inputs\<close>

text \<open>A store in which the forwarding record of \<^verbatim>\<open>"name"\<close> points at a blob that is not
  there.\<close>

definition corrupt_store :: Netnode where
  "corrupt_store = (init OUR_NETNODE)\<lparr>hash_STR_TO_INT_MAP := [(''name'', 7)]\<rparr>"

text \<open>A store in which the integer key 5 and the string key \<^verbatim>\<open>"name"\<close> each have both of
  their placements, with different payloads.\<close>

definition both_store :: Netnode where
  "both_store = (init OUR_NETNODE)
     \<lparr>sup_default := [(5, CHR ''s'' # ''direct'')],
      sup_INT_KEYS := [(5, CHR ''s'' # ''blob'')],
      sup_STR_KEYS := [(0, CHR ''s'' # ''blob'')],
      hash_default := [(''name'', CHR ''s'' # ''direct'')],
      hash_STR_TO_INT_MAP := [(''name'', 0)]\<rparr>"

text \<open>The stores that the calls of \<^verbatim>\<open>__setitem__\<close> and \<^verbatim>\<open>__delitem__\<close> on the key
  \<^verbatim>\<open>"name"\<close> build from an empty namespace when the codec is \<^const>\<open>raw_codec\<close>, the small
  value is \<^const>\<open>small_value\<close> and the large value is \<^const>\<open>large_value\<close>. After a set of
  the large value: the payload is a blob under the generated key 0, and the forwarding record
  points at it.\<close>

definition after_large :: Netnode where
  "after_large = (init OUR_NETNODE)
     \<lparr>sup_STR_KEYS := [(0, CHR ''s'' # large_value)],
      hash_STR_TO_INT_MAP := [(''name'', 0)]\<rparr>"

text \<open>After a set of the large value and a set of the small value.\<close>

definition after_large_small :: Netnode where
  "after_large_small = (init OUR_NETNODE)
     \<lparr>hash_default := [(''name'', CHR ''s'' # small_value)],
      hash_STR_TO_INT_MAP := [(''name'', 0)]\<rparr>"

text \<open>After a set of the large value and a delete.\<close>

definition after_large_deleted :: Netnode where
  "after_large_deleted = (init OUR_NETNODE)\<lparr>hash_STR_TO_INT_MAP := [(''name'', 0)]\<rparr>"

text \<open>After a set of the small value.\<close>

definition after_small :: Netnode where
  "after_small = (init OUR_NETNODE)\<lparr>hash_default := [(''name'', CHR ''s'' # small_value)]\<rparr>"

section \<open>Properties\<close>

lemmas netnode_defs = setitem_def getitem_def delitem_def strset_def strdel_def strget_def
  intset_def intdel_def intget_def raw_codec_def large_value_def small_value_def init_def
  BLOB_SIZE_def truthy_def suplast_def contains_def get_def keys_def iterkeys_def kill_def
  sup1st_def supnxt_def

subsection \<open>Enumeration of a space\<close>

lemma first_key_None: "first_key sp = None \<longleftrightarrow> sp = []"
  by (induction sp rule: first_key.induct) (auto split: option.splits)

lemma first_key_mem: "first_key sp = Some j \<Longrightarrow> j \<in> fst ` set sp"
proof (induction sp arbitrary: j rule: first_key.induct)
  case 1
  then show ?case by simp
next
  case (2 k v sp)
  show ?case
  proof (cases "first_key sp")
    case None
    with 2 show ?thesis by simp
  next
    case (Some m)
    with 2 have "m \<in> fst ` set sp" and "j = min k m" by auto
    then show ?thesis by (auto simp: min_def)
  qed
qed

lemma first_key_le: "first_key sp = Some j \<Longrightarrow> k \<in> fst ` set sp \<Longrightarrow> j \<le> k"
proof (induction sp arbitrary: j rule: first_key.induct)
  case 1
  then show ?case by simp
next
  case (2 k' v sp)
  show ?case
  proof (cases "first_key sp")
    case None
    then have "sp = []" by (simp add: first_key_None)
    with 2 None show ?thesis by simp
  next
    case (Some m)
    with 2 have j: "j = min k' m" by simp
    from 2(3) have "k = k' \<or> k \<in> fst ` set sp" by auto
    then show ?thesis
    proof
      assume "k = k'" with j show ?thesis by simp
    next
      assume "k \<in> fst ` set sp"
      with 2(1) Some have "m \<le> k" by simp
      with j show ?thesis by (simp add: min_le_iff_disj)
    qed
  qed
qed

lemma next_key_mem: "next_key sp i = Some j \<Longrightarrow> j \<in> fst ` set sp \<and> i < j"
  unfolding next_key_def by (drule first_key_mem) auto

lemma next_key_le:
  "next_key sp i = Some j \<Longrightarrow> k \<in> fst ` set sp \<Longrightarrow> i < k \<Longrightarrow> j \<le> k"
  unfolding next_key_def by (erule first_key_le) force

lemma next_key_measure:
  assumes "next_key sp i = Some j"
  shows "length (filter (\<lambda>(k, v). j < k) sp) < length (filter (\<lambda>(k, v). i < k) sp)"
proof -
  from assms have mem: "j \<in> fst ` set sp" and lt: "i < j"
    using next_key_mem by blast+
  from mem obtain v where jv: "(j, v) \<in> set sp" by auto
  have "length (filter (\<lambda>(k, v). j < k) (filter (\<lambda>(k, v). i < k) sp))
          < length (filter (\<lambda>(k, v). i < k) sp)"
    by (rule length_filter_less [of "(j, v)"]) (use jv lt in auto)
  moreover have "filter (\<lambda>(k, v). j < k) (filter (\<lambda>(k, v). i < k) sp)
                   = filter (\<lambda>(k, v). j < k) sp"
    using lt by (auto intro!: filter_cong)
  ultimately show ?thesis by simp
qed

termination tour
proof (relation "measure (\<lambda>(sp, io). case io of None \<Rightarrow> 0
                  | Some i \<Rightarrow> Suc (length (filter (\<lambda>(k, v). i < k) sp)))")
  show "wf (measure (\<lambda>(sp :: ('a, 'b) space, io). case io of None \<Rightarrow> 0
                  | Some i \<Rightarrow> Suc (length (filter (\<lambda>(k, v). i < k) sp))))"
    by simp
next
  fix sp :: "('a, 'b) space" and i :: 'a
  show "((sp, next_key sp i), (sp, Some i))
          \<in> measure (\<lambda>(sp, io). case io of None \<Rightarrow> 0
                  | Some i \<Rightarrow> Suc (length (filter (\<lambda>(k, v). i < k) sp)))"
    by (cases "next_key sp i") (auto dest: next_key_measure)
qed

termination tour_sup
proof (relation "measure (\<lambda>(sp, i). if i = BADNODE then 0
                  else Suc (length (filter (\<lambda>(k, v). i < k) sp)))")
  show "wf (measure (\<lambda>(sp :: (int, bytes) space, i). if i = BADNODE then 0
                  else Suc (length (filter (\<lambda>(k, v). i < k) sp))))"
    by simp
next
  fix sp :: "(int, bytes) space" and i :: int
  assume "i \<noteq> BADNODE"
  then show "((sp, supnxt sp i), (sp, i))
          \<in> measure (\<lambda>(sp, i). if i = BADNODE then 0
                  else Suc (length (filter (\<lambda>(k, v). i < k) sp)))"
    by (cases "next_key sp i") (auto simp: supnxt_def dest: next_key_measure)
qed

declare tour_sup.simps [simp del]

lemma tour_sup_BADNODE [simp]: "tour_sup sp BADNODE = []"
  by (simp add: tour_sup.simps)

lemma tour_sup_step: "i \<noteq> BADNODE \<Longrightarrow> tour_sup sp i = i # tour_sup sp (supnxt sp i)"
  by (subst tour_sup.simps) simp

subsection \<open>Reading\<close>

text \<open>Claim C5. For every string key whose forwarding record is present in the string-to-int
  map while the blob it points at is absent, \<^verbatim>\<open>get(key)\<close> (\<^verbatim>\<open>__getitem__\<close>) fails with
  \<^verbatim>\<open>NetnodeCorruptError\<close>, whatever the direct slot of the key holds and whatever the codec:
  the corruption reaches the caller and is not turned into \<^verbatim>\<open>KeyError\<close>.\<close>

theorem getitem_CorruptStore:
  assumes "hashval (hash_STR_TO_INT_MAP self) key = Some intkey"
    and "getblob (sup_STR_KEYS self) intkey = None"
  shows "getitem c self (StrKey key) = Inl NetnodeCorruptError"
  using assms by (simp add: getitem_def strget_def)

theorem getitem_CorruptStore_witness:
  "hashval (hash_STR_TO_INT_MAP corrupt_store) ''name'' = Some 7
   \<and> getblob (sup_STR_KEYS corrupt_store) 7 = None
   \<and> getitem raw_codec corrupt_store (StrKey ''name'') = Inl NetnodeCorruptError"
proof -
  have h1: "hashval (hash_STR_TO_INT_MAP corrupt_store) ''name'' = Some 7"
    by (simp add: corrupt_store_def init_def)
  have h2: "getblob (sup_STR_KEYS corrupt_store) 7 = None"
    by (simp add: corrupt_store_def init_def)
  from getitem_CorruptStore [OF h1 h2, of raw_codec] h1 h2 show ?thesis by simp
qed

text \<open>Claim C10. In a state where both placements of a key exist (for an integer key its blob
  and its direct slot, for a string key its forwarding record and its direct hash slot),
  \<^verbatim>\<open>get(key)\<close> reads the blob or forwarding placement: for an integer key it decodes the
  blob; for a string key it decodes the blob the forwarding record points at, or fails with
  \<^verbatim>\<open>NetnodeCorruptError\<close> when that blob is absent. The payload \<open>d\<close> of the direct slot
  does not occur in the result.\<close>

theorem getitem_blob_first:
  "(getblob (sup_INT_KEYS self) i = Some b \<and> supval (sup_default self) i = Some d \<longrightarrow>
      intget self i = Inr b
      \<and> getitem c self (IntKey i)
          = (case decompress c b of Inl e \<Rightarrow> Inl e | Inr p \<Rightarrow> decode c p))
   \<and> (hashval (hash_STR_TO_INT_MAP self) s = Some intkey
        \<and> hashval (hash_default self) s = Some d \<longrightarrow>
      strget self s = (case getblob (sup_STR_KEYS self) intkey of
                         None \<Rightarrow> Inl NetnodeCorruptError | Some b \<Rightarrow> Inr b)
      \<and> getitem c self (StrKey s)
          = (case getblob (sup_STR_KEYS self) intkey of
               None \<Rightarrow> Inl NetnodeCorruptError
             | Some b \<Rightarrow> (case decompress c b of Inl e \<Rightarrow> Inl e | Inr p \<Rightarrow> decode c p)))"
  by (auto simp: getitem_def intget_def strget_def split: option.splits)

theorem getitem_blob_first_witness:
  "getblob (sup_INT_KEYS both_store) 5 = Some (CHR ''s'' # ''blob'')
   \<and> supval (sup_default both_store) 5 = Some (CHR ''s'' # ''direct'')
   \<and> getitem raw_codec both_store (IntKey 5) = Inr (Some ''blob'')
   \<and> hashval (hash_STR_TO_INT_MAP both_store) ''name'' = Some 0
   \<and> hashval (hash_default both_store) ''name'' = Some (CHR ''s'' # ''direct'')
   \<and> getitem raw_codec both_store (StrKey ''name'') = Inr (Some ''blob'')"
proof -
  have h1: "getblob (sup_INT_KEYS both_store) 5 = Some (CHR ''s'' # ''blob'')"
    and h2: "supval (sup_default both_store) 5 = Some (CHR ''s'' # ''direct'')"
    and h3: "hashval (hash_STR_TO_INT_MAP both_store) ''name'' = Some 0"
    and h4: "hashval (hash_default both_store) ''name'' = Some (CHR ''s'' # ''direct'')"
    and h5: "getblob (sup_STR_KEYS both_store) 0 = Some (CHR ''s'' # ''blob'')"
    by (simp_all add: both_store_def init_def)
  from h1 h2 h3 h4 h5
    getitem_blob_first [of both_store 5 "CHR ''s'' # ''blob''" "CHR ''s'' # ''direct''"
      raw_codec "''name''" 0]
  show ?thesis by (simp add: raw_codec_def)
qed

text \<open>Claim C6. \<^verbatim>\<open>get(key, default)\<close> returns the default when \<^verbatim>\<open>__getitem__\<close> fails with
  \<^verbatim>\<open>KeyError\<close> and otherwise returns what \<^verbatim>\<open>__getitem__\<close> returns or fails as it fails;
  \<^verbatim>\<open>__contains__\<close> is true when \<^verbatim>\<open>__getitem__\<close> succeeds with a value other than
  \<^verbatim>\<open>None\<close>, false when it succeeds with \<^verbatim>\<open>None\<close> or fails with \<^verbatim>\<open>KeyError\<close>, and fails
  with the same error on any other failure, \<^verbatim>\<open>NetnodeCorruptError\<close> included.\<close>

theorem get_contains_only_convert_KeyError:
  "(getitem c self key = Inl KeyError \<longrightarrow>
      get c self key dflt = Inr dflt \<and> contains c self key = Inr False)
   \<and> (\<forall>v. getitem c self key = Inr v \<longrightarrow>
      get c self key dflt = Inr v \<and> contains c self key = Inr (v \<noteq> None))
   \<and> (\<forall>e. getitem c self key = Inl e \<and> e \<noteq> KeyError \<longrightarrow>
      get c self key dflt = Inl e \<and> contains c self key = Inl e)"
  by (auto simp: get_def contains_def split: sum.splits error.splits)

theorem get_contains_only_convert_KeyError_witness:
  "getitem raw_codec (init OUR_NETNODE) (StrKey ''name'') = Inl KeyError
   \<and> get raw_codec (init OUR_NETNODE) (StrKey ''name'') (Some ''d'') = Inr (Some ''d'')
   \<and> contains raw_codec (init OUR_NETNODE) (StrKey ''name'') = Inr False
   \<and> getitem raw_codec both_store (IntKey 5) = Inr (Some ''blob'')
   \<and> get raw_codec both_store (IntKey 5) (Some ''d'') = Inr (Some ''blob'')
   \<and> contains raw_codec both_store (IntKey 5) = Inr True
   \<and> getitem raw_codec corrupt_store (StrKey ''name'') = Inl NetnodeCorruptError
   \<and> get raw_codec corrupt_store (StrKey ''name'') (Some ''d'') = Inl NetnodeCorruptError
   \<and> contains raw_codec corrupt_store (StrKey ''name'') = Inl NetnodeCorruptError"
proof -
  have a: "getitem raw_codec (init OUR_NETNODE) (StrKey ''name'') = Inl KeyError"
    by (simp add: getitem_def strget_def init_def)
  have b: "getitem raw_codec both_store (IntKey 5) = Inr (Some ''blob'')"
    by (simp add: getitem_def intget_def both_store_def init_def raw_codec_def)
  have c: "getitem raw_codec corrupt_store (StrKey ''name'') = Inl NetnodeCorruptError"
    by (simp add: getitem_def strget_def corrupt_store_def init_def)
  from a b c
    get_contains_only_convert_KeyError
      [of raw_codec "init OUR_NETNODE" "StrKey ''name''" "Some ''d''"]
    get_contains_only_convert_KeyError [of raw_codec both_store "IntKey 5" "Some ''d''"]
    get_contains_only_convert_KeyError
      [of raw_codec corrupt_store "StrKey ''name''" "Some ''d''"]
  show ?thesis by simp
qed

subsection \<open>Reset\<close>

text \<open>Claim C9. After \<^verbatim>\<open>kill()\<close> the object has the same name, \<^verbatim>\<open>keys()\<close> is the empty list,
  and \<^verbatim>\<open>get(key)\<close> fails with \<^verbatim>\<open>KeyError\<close> for every integer key and every string key,
  whatever the store held before.\<close>

theorem kill_empties_namespace:
  "netnode_name (kill self) = netnode_name self
   \<and> keys (kill self) = []
   \<and> getitem c (kill self) (IntKey i) = Inl KeyError
   \<and> getitem c (kill self) (StrKey s) = Inl KeyError"
  by (simp add: kill_def init_def keys_def iterkeys_def getitem_def intget_def strget_def
        sup1st_def)

subsection \<open>Writing\<close>

lemma intset_small:
  "length v \<le> 1024 \<Longrightarrow> \<exists>self'. intset self i v = Inr self'
     \<and> supval (sup_default self') i = Some v \<and> getblob (sup_INT_KEYS self') i = None"
  by (auto simp: intset_def intdel_def BLOB_SIZE_def update_conv' delete_conv' Let_def
           split: option.splits)

lemma intset_large:
  "length v > 1024 \<Longrightarrow> \<exists>self'. intset self i v = Inr self'
     \<and> getblob (sup_INT_KEYS self') i = Some v \<and> supval (sup_default self') i = None"
  by (auto simp: intset_def intdel_def BLOB_SIZE_def update_conv' delete_conv' Let_def
           split: option.splits)

lemma strset_small:
  "length v \<le> 1024 \<Longrightarrow> \<exists>self'. strset self s v = Inr self'
     \<and> hashval (hash_default self') s = Some v
     \<and> (\<forall>intkey. hashval (hash_STR_TO_INT_MAP self') s = Some intkey
            \<longrightarrow> getblob (sup_STR_KEYS self') intkey = None)"
  by (auto simp: strset_def strdel_def BLOB_SIZE_def update_conv' delete_conv' Let_def
           split: option.splits)

lemma strset_large:
  "length v > 1024 \<Longrightarrow> \<exists>self'. strset self s v = Inr self'
     \<and> (\<exists>intkey. hashval (hash_STR_TO_INT_MAP self') s = Some intkey
            \<and> getblob (sup_STR_KEYS self') intkey = Some v)
     \<and> hashval (hash_default self') s \<noteq> Some v"
  by (auto simp: strset_def strdel_def BLOB_SIZE_def update_conv' delete_conv' Let_def truthy_def
           split: option.splits)

text \<open>Claim C7. For a value the codec encodes to \<open>d\<close>, \<^verbatim>\<open>set\<close> (\<^verbatim>\<open>__setitem__\<close>) succeeds on
  an integer key and on a string key, in any store, and the placement is decided by the length
  of the compressed payload \<open>compress c d\<close> alone, against 1024: at most 1024 bytes, the
  payload is in the direct slot of the key and no blob holds it (for a string key, a forwarding
  record that is left points at no blob); more than 1024 bytes, the payload is in the blob
  placement (for a string key, under the integer the forwarding record gives) and the direct
  slot does not hold it.\<close>

theorem setitem_placement_by_compressed_size:
  assumes "encode c (Some x) = Inr d"
  shows "(\<exists>self'. setitem c self (IntKey i) (Some x) = Inr self'
           \<and> (length (compress c d) \<le> 1024 \<longrightarrow>
                 supval (sup_default self') i = Some (compress c d)
                 \<and> getblob (sup_INT_KEYS self') i = None)
           \<and> (length (compress c d) > 1024 \<longrightarrow>
                 getblob (sup_INT_KEYS self') i = Some (compress c d)
                 \<and> supval (sup_default self') i = None))
       \<and> (\<exists>self'. setitem c self (StrKey s) (Some x) = Inr self'
           \<and> (length (compress c d) \<le> 1024 \<longrightarrow>
                 hashval (hash_default self') s = Some (compress c d)
                 \<and> (\<forall>intkey. hashval (hash_STR_TO_INT_MAP self') s = Some intkey
                        \<longrightarrow> getblob (sup_STR_KEYS self') intkey = None))
           \<and> (length (compress c d) > 1024 \<longrightarrow>
                 (\<exists>intkey. hashval (hash_STR_TO_INT_MAP self') s = Some intkey
                        \<and> getblob (sup_STR_KEYS self') intkey = Some (compress c d))
                 \<and> hashval (hash_default self') s \<noteq> Some (compress c d)))"
proof -
  have seti: "setitem c self (IntKey i) (Some x) = intset self i (compress c d)"
    and sets: "setitem c self (StrKey s) (Some x) = strset self s (compress c d)"
    using assms by (simp_all add: setitem_def)
  have int_part: "\<exists>self'. intset self i (compress c d) = Inr self'
           \<and> (length (compress c d) \<le> 1024 \<longrightarrow>
                 supval (sup_default self') i = Some (compress c d)
                 \<and> getblob (sup_INT_KEYS self') i = None)
           \<and> (length (compress c d) > 1024 \<longrightarrow>
                 getblob (sup_INT_KEYS self') i = Some (compress c d)
                 \<and> supval (sup_default self') i = None)"
  proof (cases "length (compress c d) \<le> 1024")
    case True
    with intset_small [of "compress c d" self i] show ?thesis by auto
  next
    case False
    with intset_large [of "compress c d" self i] show ?thesis by auto
  qed
  have str_part: "\<exists>self'. strset self s (compress c d) = Inr self'
           \<and> (length (compress c d) \<le> 1024 \<longrightarrow>
                 hashval (hash_default self') s = Some (compress c d)
                 \<and> (\<forall>intkey. hashval (hash_STR_TO_INT_MAP self') s = Some intkey
                        \<longrightarrow> getblob (sup_STR_KEYS self') intkey = None))
           \<and> (length (compress c d) > 1024 \<longrightarrow>
                 (\<exists>intkey. hashval (hash_STR_TO_INT_MAP self') s = Some intkey
                        \<and> getblob (sup_STR_KEYS self') intkey = Some (compress c d))
                 \<and> hashval (hash_default self') s \<noteq> Some (compress c d))"
  proof (cases "length (compress c d) \<le> 1024")
    case True
    with strset_small [of "compress c d" self s] show ?thesis by auto
  next
    case False
    with strset_large [of "compress c d" self s] show ?thesis by auto
  qed
  from int_part str_part show ?thesis unfolding seti sets by blast
qed

theorem setitem_placement_by_compressed_size_witness:
  "encode raw_codec (Some small_value) = Inr (CHR ''s'' # small_value)
   \<and> encode raw_codec (Some large_value) = Inr (CHR ''s'' # large_value)
   \<and> setitem raw_codec both_store (IntKey 5) (Some small_value)
       = Inr (both_store\<lparr>sup_INT_KEYS := [], sup_default := [(5, CHR ''s'' # small_value)]\<rparr>)
   \<and> setitem raw_codec both_store (IntKey 5) (Some large_value)
       = Inr (both_store\<lparr>sup_default := [], sup_INT_KEYS := [(5, CHR ''s'' # large_value)]\<rparr>)
   \<and> setitem raw_codec (init OUR_NETNODE) (StrKey ''name'') (Some small_value)
       = Inr ((init OUR_NETNODE)\<lparr>hash_default := [(''name'', CHR ''s'' # small_value)]\<rparr>)
   \<and> setitem raw_codec (init OUR_NETNODE) (StrKey ''name'') (Some large_value)
       = Inr after_large"
proof -
  have e1: "encode raw_codec (Some small_value) = Inr (CHR ''s'' # small_value)"
    and e2: "encode raw_codec (Some large_value) = Inr (CHR ''s'' # large_value)"
    by (simp_all add: raw_codec_def)
  note t1 = setitem_placement_by_compressed_size [OF e1, of both_store 5 "''name''"]
  note t2 = setitem_placement_by_compressed_size [OF e2, of both_store 5 "''name''"]
  have "setitem raw_codec both_store (IntKey 5) (Some small_value)
       = Inr (both_store\<lparr>sup_INT_KEYS := [], sup_default := [(5, CHR ''s'' # small_value)]\<rparr>)"
    using t1 by (simp add: netnode_defs both_store_def)
  moreover have "setitem raw_codec both_store (IntKey 5) (Some large_value)
       = Inr (both_store\<lparr>sup_default := [], sup_INT_KEYS := [(5, CHR ''s'' # large_value)]\<rparr>)"
    using t2 by (simp add: netnode_defs both_store_def)
  moreover have "setitem raw_codec (init OUR_NETNODE) (StrKey ''name'') (Some small_value)
       = Inr ((init OUR_NETNODE)\<lparr>hash_default := [(''name'', CHR ''s'' # small_value)]\<rparr>)"
    by (simp add: netnode_defs)
  moreover have "setitem raw_codec (init OUR_NETNODE) (StrKey ''name'') (Some large_value)
       = Inr after_large"
    by (simp add: netnode_defs after_large_def)
  ultimately show ?thesis using e1 e2 by simp
qed

subsection \<open>Round trip and overwrite\<close>

text \<open>For a codec that round-trips the value, \<^verbatim>\<open>set\<close> then \<^verbatim>\<open>get\<close> returns the value for
  every integer key in every store, and for a string key when the store has no forwarding
  record for the key or the compressed payload is large.\<close>

lemma setitem_getitem_int:
  assumes "encode c (Some x) = Inr d" and "decompress c (compress c d) = Inr d"
    and "decode c d = Inr (Some x)"
  shows "\<exists>self'. setitem c self (IntKey i) (Some x) = Inr self'
           \<and> getitem c self' (IntKey i) = Inr (Some x)"
proof (cases "length (compress c d) \<le> 1024")
  case True
  with intset_small [of "compress c d" self i] assms show ?thesis
    by (auto simp: setitem_def getitem_def intget_def)
next
  case False
  with intset_large [of "compress c d" self i] assms show ?thesis
    by (auto simp: setitem_def getitem_def intget_def)
qed

lemma setitem_getitem_str:
  assumes "encode c (Some x) = Inr d" and "decompress c (compress c d) = Inr d"
    and "decode c d = Inr (Some x)"
    and "hashval (hash_STR_TO_INT_MAP self) s = None \<or> length (compress c d) > 1024"
  shows "\<exists>self'. setitem c self (StrKey s) (Some x) = Inr self'
           \<and> getitem c self' (StrKey s) = Inr (Some x)"
  using assms
  by (auto simp: setitem_def getitem_def strget_def strset_def strdel_def BLOB_SIZE_def Let_def
        update_conv' delete_conv' split: option.splits)

text \<open>Claim C1 says that \<^verbatim>\<open>set(key, value)\<close> followed by \<^verbatim>\<open>get(key)\<close> returns the value, for
  integer and string keys and for values on both sides of the threshold. For every codec, every
  store, every string key and every two values of which the first has a compressed payload of
  more than 1024 bytes and the second one of at most 1024 bytes: after \<^verbatim>\<open>set(key, first)\<close>,
  the calls \<^verbatim>\<open>set(key, second)\<close> and \<^verbatim>\<open>get(key)\<close> both return, the payload of the second
  value is in the direct slot, and \<^verbatim>\<open>get(key)\<close> fails with \<^verbatim>\<open>NetnodeCorruptError\<close>:
  \<^verbatim>\<open>_strdel\<close> deletes the blob and calls \<^verbatim>\<open>hashdel(key)\<close> on the default hash space, so the
  forwarding record under \<^verbatim>\<open>STR_TO_INT_MAP_TAG\<close> stays and is read first.\<close>

theorem setitem_getitem_stale_forwarding:
  assumes "encode c (Some x) = Inr d" and "length (compress c d) > 1024"
    and "encode c (Some y) = Inr e" and "length (compress c e) \<le> 1024"
  shows "\<exists>self1 self2.
           setitem c self (StrKey s) (Some x) = Inr self1
         \<and> setitem c self1 (StrKey s) (Some y) = Inr self2
         \<and> hashval (hash_default self2) s = Some (compress c e)
         \<and> getitem c self2 (StrKey s) = Inl NetnodeCorruptError"
  using assms
  by (auto simp: setitem_def getitem_def strget_def strset_def strdel_def BLOB_SIZE_def Let_def
        truthy_def update_conv' delete_conv' split: option.splits)

theorem setitem_getitem_stale_forwarding_witness:
  "setitem raw_codec (init OUR_NETNODE) (StrKey ''name'') (Some large_value) = Inr after_large
   \<and> setitem raw_codec after_large (StrKey ''name'') (Some small_value) = Inr after_large_small
   \<and> getitem raw_codec after_large_small (StrKey ''name'') = Inl NetnodeCorruptError"
proof -
  have e1: "encode raw_codec (Some large_value) = Inr (CHR ''s'' # large_value)"
    and l1: "length (compress raw_codec (CHR ''s'' # large_value)) > 1024"
    and e2: "encode raw_codec (Some small_value) = Inr (CHR ''s'' # small_value)"
    and l2: "length (compress raw_codec (CHR ''s'' # small_value)) \<le> 1024"
    by (simp_all add: raw_codec_def large_value_def small_value_def)
  from setitem_getitem_stale_forwarding [OF e1 l1 e2 l2, of "init OUR_NETNODE" "''name''"]
  obtain self1 self2
    where a: "setitem raw_codec (init OUR_NETNODE) (StrKey ''name'') (Some large_value)
                = Inr self1"
      and b: "setitem raw_codec self1 (StrKey ''name'') (Some small_value) = Inr self2"
      and g: "getitem raw_codec self2 (StrKey ''name'') = Inl NetnodeCorruptError"
    by blast
  have a': "setitem raw_codec (init OUR_NETNODE) (StrKey ''name'') (Some large_value)
              = Inr after_large"
    by (simp add: netnode_defs after_large_def)
  have b': "setitem raw_codec after_large (StrKey ''name'') (Some small_value)
              = Inr after_large_small"
    by (simp add: netnode_defs after_large_def after_large_small_def)
  from a a' have "self1 = after_large" by simp
  with b b' have "self2 = after_large_small" by simp
  with g a' b' show ?thesis by simp
qed

text \<open>Claim C2 says that after \<^verbatim>\<open>set(key, small)\<close> then \<^verbatim>\<open>set(key, large)\<close>, \<^verbatim>\<open>get(key)\<close>
  returns the large value and \<^verbatim>\<open>keys()\<close> contains the key exactly once with no remnant of the
  earlier placement, and the same in the other order. For every codec, every string key, a
  small value (compressed payload of at most 1024 bytes, and not empty, as no \<^verbatim>\<open>zlib\<close>
  stream is) and a large value (more than 1024 bytes) that the codec reads back, on an empty
  namespace: small then large, the large value is read back and \<^verbatim>\<open>keys()\<close> is empty; large
  then small, the forwarding record remains without its blob, \<^verbatim>\<open>get\<close> fails with
  \<^verbatim>\<open>NetnodeCorruptError\<close>, and \<^verbatim>\<open>keys()\<close> contains the key once.\<close>

theorem overwrite_across_size_classes_str:
  assumes "encode c (Some y) = Inr e" and "length (compress c e) \<le> 1024"
    and "compress c e \<noteq> []"
    and "encode c (Some x) = Inr d" and "length (compress c d) > 1024"
    and "decompress c (compress c d) = Inr d" and "decode c d = Inr (Some x)"
  shows "(\<exists>self1 self2.
            setitem c (init name) (StrKey s) (Some y) = Inr self1
          \<and> setitem c self1 (StrKey s) (Some x) = Inr self2
          \<and> getitem c self2 (StrKey s) = Inr (Some x)
          \<and> keys self2 = [])
       \<and> (\<exists>self1 self2 intkey.
            setitem c (init name) (StrKey s) (Some x) = Inr self1
          \<and> setitem c self1 (StrKey s) (Some y) = Inr self2
          \<and> hashval (hash_STR_TO_INT_MAP self2) s = Some intkey
          \<and> getblob (sup_STR_KEYS self2) intkey = None
          \<and> getitem c self2 (StrKey s) = Inl NetnodeCorruptError
          \<and> keys self2 = [StrKey s])"
proof -
  have small_large: "\<exists>self1 self2.
            setitem c (init name) (StrKey s) (Some y) = Inr self1
          \<and> setitem c self1 (StrKey s) (Some x) = Inr self2
          \<and> getitem c self2 (StrKey s) = Inr (Some x)
          \<and> keys self2 = []"
    using assms
    by (simp add: setitem_def getitem_def strget_def strset_def strdel_def BLOB_SIZE_def
          truthy_def init_def keys_def iterkeys_def sup1st_def suplast_def)
  have large_small: "\<exists>self1 self2 intkey.
            setitem c (init name) (StrKey s) (Some x) = Inr self1
          \<and> setitem c self1 (StrKey s) (Some y) = Inr self2
          \<and> hashval (hash_STR_TO_INT_MAP self2) s = Some intkey
          \<and> getblob (sup_STR_KEYS self2) intkey = None
          \<and> getitem c self2 (StrKey s) = Inl NetnodeCorruptError
          \<and> keys self2 = [StrKey s]"
    using assms
    by (simp add: setitem_def getitem_def strget_def strset_def strdel_def BLOB_SIZE_def
          truthy_def init_def keys_def iterkeys_def sup1st_def suplast_def next_key_def)
  from small_large large_small show ?thesis by blast
qed

theorem overwrite_across_size_classes_str_witness:
  "setitem raw_codec (init OUR_NETNODE) (StrKey ''name'') (Some small_value) = Inr after_small
   \<and> setitem raw_codec after_small (StrKey ''name'') (Some large_value) = Inr after_large
   \<and> getitem raw_codec after_large (StrKey ''name'') = Inr (Some large_value)
   \<and> keys after_large = []
   \<and> setitem raw_codec after_large (StrKey ''name'') (Some small_value) = Inr after_large_small
   \<and> getitem raw_codec after_large_small (StrKey ''name'') = Inl NetnodeCorruptError
   \<and> keys after_large_small = [StrKey ''name'']"
proof -
  have e2: "encode raw_codec (Some small_value) = Inr (CHR ''s'' # small_value)"
    and l2: "length (compress raw_codec (CHR ''s'' # small_value)) \<le> 1024"
    and n2: "compress raw_codec (CHR ''s'' # small_value) \<noteq> []"
    and e1: "encode raw_codec (Some large_value) = Inr (CHR ''s'' # large_value)"
    and l1: "length (compress raw_codec (CHR ''s'' # large_value)) > 1024"
    and r1: "decompress raw_codec (compress raw_codec (CHR ''s'' # large_value))
               = Inr (CHR ''s'' # large_value)"
    and d1: "decode raw_codec (CHR ''s'' # large_value) = Inr (Some large_value)"
    by (simp_all add: raw_codec_def large_value_def small_value_def)
  note t = overwrite_across_size_classes_str [OF e2 l2 n2 e1 l1 r1 d1, of OUR_NETNODE "''name''"]
  have s1: "setitem raw_codec (init OUR_NETNODE) (StrKey ''name'') (Some small_value)
              = Inr after_small"
    by (simp add: netnode_defs after_small_def)
  have s2: "setitem raw_codec after_small (StrKey ''name'') (Some large_value)
              = Inr after_large"
    by (simp add: netnode_defs after_small_def after_large_def)
  have s3: "setitem raw_codec (init OUR_NETNODE) (StrKey ''name'') (Some large_value)
              = Inr after_large"
    by (simp add: netnode_defs after_large_def)
  have s4: "setitem raw_codec after_large (StrKey ''name'') (Some small_value)
              = Inr after_large_small"
    by (simp add: netnode_defs after_large_def after_large_small_def)
  from t s1 s2 s3 s4 show ?thesis by auto
qed

subsection \<open>Deleting\<close>

text \<open>Claim C3 says that \<^verbatim>\<open>delete(key)\<close> removes every placement of the key, so that
  afterwards \<^verbatim>\<open>get(key)\<close> fails with \<^verbatim>\<open>KeyError\<close> and \<^verbatim>\<open>contains(key)\<close> is false. For
  every codec, every store, every string key and every value with a compressed payload of more
  than 1024 bytes: after \<^verbatim>\<open>set(key, value)\<close> and \<^verbatim>\<open>delete(key)\<close>, which both return, the
  forwarding record is still there without its blob, and \<^verbatim>\<open>__getitem__\<close>, \<^verbatim>\<open>get\<close> and
  \<^verbatim>\<open>__contains__\<close> all fail with \<^verbatim>\<open>NetnodeCorruptError\<close>.\<close>

theorem delitem_leaves_forwarding_record:
  assumes "encode c (Some x) = Inr d" and "length (compress c d) > 1024"
  shows "\<exists>self1 self2 intkey.
           setitem c self (StrKey s) (Some x) = Inr self1
         \<and> delitem self1 (StrKey s) = Inr self2
         \<and> hashval (hash_STR_TO_INT_MAP self2) s = Some intkey
         \<and> getblob (sup_STR_KEYS self2) intkey = None
         \<and> getitem c self2 (StrKey s) = Inl NetnodeCorruptError
         \<and> get c self2 (StrKey s) dflt = Inl NetnodeCorruptError
         \<and> contains c self2 (StrKey s) = Inl NetnodeCorruptError"
  using assms
  by (auto simp: setitem_def getitem_def delitem_def get_def contains_def strget_def strset_def
        strdel_def BLOB_SIZE_def Let_def truthy_def update_conv' delete_conv'
        split: option.splits)

theorem delitem_leaves_forwarding_record_witness:
  "setitem raw_codec (init OUR_NETNODE) (StrKey ''name'') (Some large_value) = Inr after_large
   \<and> delitem after_large (StrKey ''name'') = Inr after_large_deleted
   \<and> getitem raw_codec after_large_deleted (StrKey ''name'') = Inl NetnodeCorruptError
   \<and> get raw_codec after_large_deleted (StrKey ''name'') None = Inl NetnodeCorruptError
   \<and> contains raw_codec after_large_deleted (StrKey ''name'') = Inl NetnodeCorruptError"
proof -
  have e1: "encode raw_codec (Some large_value) = Inr (CHR ''s'' # large_value)"
    and l1: "length (compress raw_codec (CHR ''s'' # large_value)) > 1024"
    by (simp_all add: raw_codec_def large_value_def)
  from delitem_leaves_forwarding_record [OF e1 l1, of "init OUR_NETNODE" "''name''" None]
  obtain self1 self2
    where a: "setitem raw_codec (init OUR_NETNODE) (StrKey ''name'') (Some large_value)
                = Inr self1"
      and b: "delitem self1 (StrKey ''name'') = Inr self2"
      and g: "getitem raw_codec self2 (StrKey ''name'') = Inl NetnodeCorruptError"
        "get raw_codec self2 (StrKey ''name'') None = Inl NetnodeCorruptError"
        "contains raw_codec self2 (StrKey ''name'') = Inl NetnodeCorruptError"
    by blast
  have a': "setitem raw_codec (init OUR_NETNODE) (StrKey ''name'') (Some large_value)
              = Inr after_large"
    by (simp add: netnode_defs after_large_def)
  have b': "delitem after_large (StrKey ''name'') = Inr after_large_deleted"
    by (simp add: netnode_defs after_large_def after_large_deleted_def)
  from a a' have "self1 = after_large" by simp
  with b b' have "self2 = after_large_deleted" by simp
  with g a' b' show ?thesis by simp
qed













subsection \<open>Enumeration\<close>

text \<open>A tour of a string-keyed space yields each key of that space once.\<close>

lemma next_key_None: "next_key sp i = None \<longleftrightarrow> (\<forall>k \<in> fst ` set sp. \<not> i < k)"
  unfolding next_key_def first_key_None by (auto simp: filter_empty_conv)

lemma tour_next_key:
  "set (tour sp (next_key sp i)) = {k \<in> fst ` set sp. i < k}
   \<and> distinct (tour sp (next_key sp i))"
proof (induction "length (filter (\<lambda>(k, v). i < k) sp)" arbitrary: i rule: less_induct)
  case less
  show ?case
  proof (cases "next_key sp i")
    case None
    then have "{k \<in> fst ` set sp. i < k} = {}" by (auto simp: next_key_None)
    with None show ?thesis by simp
  next
    case (Some j)
    from next_key_measure [OF Some] less
    have IH: "set (tour sp (next_key sp j)) = {k \<in> fst ` set sp. j < k}"
      "distinct (tour sp (next_key sp j))" by blast+
    from next_key_mem [OF Some] have j: "j \<in> fst ` set sp" "i < j" by auto
    have le: "\<And>k. k \<in> fst ` set sp \<Longrightarrow> i < k \<Longrightarrow> j \<le> k"
      using next_key_le [OF Some] by blast
    have "{k \<in> fst ` set sp. i < k} = insert j {k \<in> fst ` set sp. j < k}"
      using j le by (auto simp: order.strict_iff_order)
    with IH Some show ?thesis by auto
  qed
qed

lemma tour_first_key:
  "set (tour sp (first_key sp)) = fst ` set sp \<and> distinct (tour sp (first_key sp))"
proof (cases "first_key sp")
  case None
  then show ?thesis by (simp add: first_key_None)
next
  case (Some j)
  have j: "j \<in> fst ` set sp" using first_key_mem [OF Some] .
  have le: "\<And>k. k \<in> fst ` set sp \<Longrightarrow> j \<le> k" using first_key_le [OF Some] .
  have "fst ` set sp = insert j {k \<in> fst ` set sp. j < k}"
    using j le by (auto simp: order.strict_iff_order)
  with tour_next_key [of sp j] Some show ?thesis by auto
qed

text \<open>A tour of an integer-keyed space yields, once each, the keys of the space up to the
  first one that is equal to \<^verbatim>\<open>BADNODE\<close>: all of them when \<^verbatim>\<open>BADNODE\<close> is not a key.\<close>

lemma tour_sup_supnxt:
  "set (tour_sup sp (supnxt sp i))
     = {k \<in> fst ` set sp. i < k \<and> (\<forall>m \<in> fst ` set sp. i < m \<and> m \<le> k \<longrightarrow> m \<noteq> BADNODE)}
   \<and> distinct (tour_sup sp (supnxt sp i))"
proof (induction "length (filter (\<lambda>(k, v). i < k) sp)" arbitrary: i rule: less_induct)
  case less
  show ?case
  proof (cases "next_key sp i")
    case None
    then have "{k \<in> fst ` set sp. i < k} = {}" by (auto simp: next_key_None)
    then have "{k \<in> fst ` set sp. i < k
                 \<and> (\<forall>m \<in> fst ` set sp. i < m \<and> m \<le> k \<longrightarrow> m \<noteq> BADNODE)} = {}"
      by blast
    with None show ?thesis by (simp add: supnxt_def)
  next
    case (Some j)
    from next_key_mem [OF Some] have j: "j \<in> fst ` set sp" "i < j" by auto
    have le: "\<And>k. k \<in> fst ` set sp \<Longrightarrow> i < k \<Longrightarrow> j \<le> k"
      using next_key_le [OF Some] by blast
    have nxt: "supnxt sp i = j" using Some by (simp add: supnxt_def)
    show ?thesis
    proof (cases "j = BADNODE")
      case True
      have "{k \<in> fst ` set sp. i < k
              \<and> (\<forall>m \<in> fst ` set sp. i < m \<and> m \<le> k \<longrightarrow> m \<noteq> BADNODE)} = {}"
        using j le True by blast
      with nxt True show ?thesis by simp
    next
      case False
      from next_key_measure [OF Some] less
      have IH: "set (tour_sup sp (supnxt sp j))
                  = {k \<in> fst ` set sp. j < k
                       \<and> (\<forall>m \<in> fst ` set sp. j < m \<and> m \<le> k \<longrightarrow> m \<noteq> BADNODE)}"
        "distinct (tour_sup sp (supnxt sp j))" by blast+
      have "{k \<in> fst ` set sp. i < k
              \<and> (\<forall>m \<in> fst ` set sp. i < m \<and> m \<le> k \<longrightarrow> m \<noteq> BADNODE)}
            = insert j {k \<in> fst ` set sp. j < k
              \<and> (\<forall>m \<in> fst ` set sp. j < m \<and> m \<le> k \<longrightarrow> m \<noteq> BADNODE)}"
        (is "?L = insert j ?R")
      proof (rule set_eqI)
        fix k
        show "k \<in> ?L \<longleftrightarrow> k \<in> insert j ?R"
        proof
          assume k: "k \<in> ?L"
          then have "j \<le> k" using le by blast
          then show "k \<in> insert j ?R"
            using k j by (cases "k = j") (auto simp: order.strict_iff_order)
        next
          assume "k \<in> insert j ?R"
          then show "k \<in> ?L"
          proof
            assume kj: "k = j"
            have "m \<noteq> BADNODE" if m: "m \<in> fst ` set sp" "i < m" "m \<le> j" for m
            proof -
              from le [OF m(1,2)] m(3) have "m = j" by simp
              with False show ?thesis by simp
            qed
            with kj j show ?thesis by blast
          next
            assume k: "k \<in> ?R"
            have "m \<noteq> BADNODE" if m: "m \<in> fst ` set sp" "i < m" "m \<le> k" for m
            proof (cases "m = j")
              case True
              then show ?thesis using False by simp
            next
              case neq: False
              from le [OF m(1,2)] neq have "j < m" by simp
              with k m show ?thesis by blast
            qed
            with k j show ?thesis by auto
          qed
        qed
      qed
      with IH nxt False show ?thesis by (auto simp: tour_sup_step)
    qed
  qed
qed

lemma tour_sup_sup1st:
  "set (tour_sup sp (sup1st sp))
     = {k \<in> fst ` set sp. \<forall>m \<in> fst ` set sp. m \<le> k \<longrightarrow> m \<noteq> BADNODE}
   \<and> distinct (tour_sup sp (sup1st sp))"
proof (cases "first_key sp")
  case None
  then show ?thesis by (simp add: first_key_None sup1st_def)
next
  case (Some j)
  have j: "j \<in> fst ` set sp" using first_key_mem [OF Some] .
  have le: "\<And>k. k \<in> fst ` set sp \<Longrightarrow> j \<le> k" using first_key_le [OF Some] .
  have fst: "sup1st sp = j" using Some by (simp add: sup1st_def)
  show ?thesis
  proof (cases "j = BADNODE")
    case True
    have "{k \<in> fst ` set sp. \<forall>m \<in> fst ` set sp. m \<le> k \<longrightarrow> m \<noteq> BADNODE} = {}"
      using j le True by blast
    with fst True show ?thesis by simp
  next
    case False
    have "{k \<in> fst ` set sp. \<forall>m \<in> fst ` set sp. m \<le> k \<longrightarrow> m \<noteq> BADNODE}
          = insert j {k \<in> fst ` set sp. j < k
              \<and> (\<forall>m \<in> fst ` set sp. j < m \<and> m \<le> k \<longrightarrow> m \<noteq> BADNODE)}"
      (is "?L = insert j ?R")
    proof (rule set_eqI)
      fix k
      show "k \<in> ?L \<longleftrightarrow> k \<in> insert j ?R"
      proof
        assume k: "k \<in> ?L"
        then have "j \<le> k" using le by blast
        then show "k \<in> insert j ?R"
          using k j by (cases "k = j") (auto simp: order.strict_iff_order)
      next
        assume "k \<in> insert j ?R"
        then show "k \<in> ?L"
        proof
          assume kj: "k = j"
          have "m \<noteq> BADNODE" if m: "m \<in> fst ` set sp" "m \<le> j" for m
          proof -
            from le [OF m(1)] m(2) have "m = j" by simp
            with False show ?thesis by simp
          qed
          with kj j show ?thesis by blast
        next
          assume k: "k \<in> ?R"
          have "m \<noteq> BADNODE" if m: "m \<in> fst ` set sp" "m \<le> k" for m
          proof (cases "m = j")
            case True
            then show ?thesis using False by simp
          next
            case neq: False
            from le [OF m(1)] neq have "j < m" by simp
            with k m show ?thesis by blast
          qed
          with k show ?thesis by auto
        qed
      qed
    qed
    with tour_sup_supnxt [of sp j] fst False show ?thesis by (auto simp: tour_sup_step)
  qed
qed

text \<open>What \<^verbatim>\<open>keys()\<close> yields. A string key is listed exactly when it is a key of the default
  hash space or of the hash space tagged \<^verbatim>\<open>STR_KEYS_TAG\<close> (\<^verbatim>\<open>'N'\<close>); the forwarding space
  (\<^verbatim>\<open>'O'\<close>) does not occur. An integer key is listed exactly when it is a key of the default
  space or of the space tagged \<^verbatim>\<open>INT_KEYS_TAG\<close> (\<^verbatim>\<open>'M'\<close>) and no key of that space up to it
  is \<^verbatim>\<open>BADNODE\<close>.\<close>

lemma StrKey_in_keys:
  "StrKey s \<in> set (keys self)
     \<longleftrightarrow> s \<in> fst ` set (hash_default self) \<or> s \<in> fst ` set (hash_STR_KEYS self)"
  using tour_first_key [of "hash_default self"] tour_first_key [of "hash_STR_KEYS self"]
  by (auto simp: keys_def iterkeys_def)

lemma IntKey_in_keys:
  "IntKey i \<in> set (keys self)
     \<longleftrightarrow> (i \<in> fst ` set (sup_default self)
            \<and> (\<forall>m \<in> fst ` set (sup_default self). m \<le> i \<longrightarrow> m \<noteq> BADNODE))
         \<or> (i \<in> fst ` set (sup_INT_KEYS self)
            \<and> (\<forall>m \<in> fst ` set (sup_INT_KEYS self). m \<le> i \<longrightarrow> m \<noteq> BADNODE))"
proof -
  have "IntKey i \<in> set (keys self)
          \<longleftrightarrow> i \<in> set (tour_sup (sup_default self) (sup1st (sup_default self)))
              \<or> i \<in> set (tour_sup (sup_INT_KEYS self) (sup1st (sup_INT_KEYS self)))"
    by (auto simp: keys_def iterkeys_def)
  also have "\<dots> \<longleftrightarrow> (i \<in> fst ` set (sup_default self)
            \<and> (\<forall>m \<in> fst ` set (sup_default self). m \<le> i \<longrightarrow> m \<noteq> BADNODE))
         \<or> (i \<in> fst ` set (sup_INT_KEYS self)
            \<and> (\<forall>m \<in> fst ` set (sup_INT_KEYS self). m \<le> i \<longrightarrow> m \<noteq> BADNODE))"
    using tour_sup_sup1st [of "sup_default self"] tour_sup_sup1st [of "sup_INT_KEYS self"]
    by simp
  finally show ?thesis .
qed

text \<open>No call of the class writes the hash space tagged \<^verbatim>\<open>STR_KEYS_TAG\<close>: in every store
  that calls build from an empty namespace, the string keys that \<^verbatim>\<open>keys()\<close> lists are those
  of the default hash space, and a key that has only a forwarding record is not listed.\<close>

lemma perform_hash_STR_KEYS:
  assumes "hash_STR_KEYS self = []"
  shows "hash_STR_KEYS (perform c self call) = []"
proof (cases call)
  case (Call_setitem k v)
  have "hash_STR_KEYS self' = []" if "setitem c self k v = Inr self'" for self'
    using that assms
    by (cases k)
       (auto simp: setitem_def strset_def strdel_def intset_def intdel_def Let_def
             split: if_splits sum.splits option.splits)
  with Call_setitem assms show ?thesis by (cases "setitem c self k v") auto
next
  case (Call_delitem k)
  have "hash_STR_KEYS self' = []" if "delitem self k = Inr self'" for self'
    using that assms
    by (cases k)
       (auto simp: delitem_def strdel_def intdel_def Let_def split: if_splits option.splits)
  with Call_delitem assms show ?thesis by (cases "delitem self k") auto
next
  case Call_kill
  then show ?thesis by (simp add: kill_def init_def)
qed

lemma run_hash_STR_KEYS:
  "hash_STR_KEYS self = [] \<Longrightarrow> hash_STR_KEYS (run c self calls) = []"
  unfolding run_def
  by (induction calls arbitrary: self) (simp_all add: perform_hash_STR_KEYS)

lemma StrKey_in_keys_run:
  "StrKey s \<in> set (keys (run c (init name) calls))
     \<longleftrightarrow> s \<in> fst ` set (hash_default (run c (init name) calls))"
  using run_hash_STR_KEYS [of "init name" c calls]
  by (simp add: StrKey_in_keys init_def)

text \<open>Claim C4 says that after any sequence of sets and deletes \<^verbatim>\<open>keys()\<close> yields exactly
  the live keys, string keys whose value is in the str-blob space included. The fourth loop of
  \<^verbatim>\<open>iterkeys\<close> tours the hash space tagged \<^verbatim>\<open>STR_KEYS_TAG\<close>, while the forwarding records
  are written under \<^verbatim>\<open>STR_TO_INT_MAP_TAG\<close>. For every codec, every string key and every value
  that the codec reads back and whose compressed payload has more than 1024 bytes: after one
  \<^verbatim>\<open>set(key, value)\<close> on an empty namespace, the key is readable and contained, and
  \<^verbatim>\<open>keys()\<close> is empty.\<close>

theorem keys_misses_forwarded_key:
  assumes "encode c (Some x) = Inr d" and "length (compress c d) > 1024"
    and "decompress c (compress c d) = Inr d" and "decode c d = Inr (Some x)"
  shows "\<exists>self'. setitem c (init name) (StrKey s) (Some x) = Inr self'
           \<and> getitem c self' (StrKey s) = Inr (Some x)
           \<and> contains c self' (StrKey s) = Inr True
           \<and> keys self' = []"
  using assms
  by (simp add: setitem_def getitem_def contains_def strget_def strset_def strdel_def
        BLOB_SIZE_def truthy_def init_def keys_def iterkeys_def sup1st_def suplast_def)

theorem keys_misses_forwarded_key_witness:
  "setitem raw_codec (init OUR_NETNODE) (StrKey ''name'') (Some large_value) = Inr after_large
   \<and> getitem raw_codec after_large (StrKey ''name'') = Inr (Some large_value)
   \<and> contains raw_codec after_large (StrKey ''name'') = Inr True
   \<and> keys after_large = []"
proof -
  have e1: "encode raw_codec (Some large_value) = Inr (CHR ''s'' # large_value)"
    and l1: "length (compress raw_codec (CHR ''s'' # large_value)) > 1024"
    and r1: "decompress raw_codec (compress raw_codec (CHR ''s'' # large_value))
               = Inr (CHR ''s'' # large_value)"
    and d1: "decode raw_codec (CHR ''s'' # large_value) = Inr (Some large_value)"
    by (simp_all add: raw_codec_def large_value_def)
  have a: "setitem raw_codec (init OUR_NETNODE) (StrKey ''name'') (Some large_value)
             = Inr after_large"
    by (simp add: netnode_defs after_large_def)
  from keys_misses_forwarded_key [OF e1 l1 r1 d1, of OUR_NETNODE "''name''"] a
  show ?thesis by auto
qed

end
